theory Spec2Isabelle
  imports Main "HOL-Library.Char_ord" "HOL-Library.List_Lexorder"
begin

section \<open>Values loaded from the YAML sources\<close>

text \<open>
  \<^verbatim>\<open>yaml.load\<close> returns Python objects. The model covers \<^verbatim>\<open>None\<close>, booleans,
  integers, strings, lists and dictionaries with string keys (the annotation
  \<^verbatim>\<open>dict[str, ...]\<close> of \<^verbatim>\<open>utils.py\<close>). A dictionary is the list of its items in
  insertion order; a Python dictionary holds every key once, which is the predicate
  \<open>wf_val\<close> below. A string is the list of its code points, for code points below 256.
  Floating point numbers and dates are left out, values are finite trees (no alias makes a
  value contain itself), and the recursion depth and the memory of the interpreter are
  not modelled.
\<close>

datatype pyval =
    PNone
  | PBool bool
  | PInt int
  | PStr string
  | PList "pyval list"
  | PDict "(string \<times> pyval) list"

datatype error =
    TypeError
  | AttributeError
  | KeyError
  | ValueError
  | FileNotFoundError
  | IsADirectoryError
  | PermissionError

fun wf_val :: "pyval \<Rightarrow> bool" where
  "wf_val (PDict d) = (distinct (map fst d) \<and> list_all (\<lambda>kv. wf_val (snd kv)) d)"
| "wf_val (PList vs) = list_all wf_val vs"
| "wf_val _ = True"

section \<open>Python string operations used by the code\<close>

text \<open>\<^verbatim>\<open>str.isspace\<close> on one code point below 256.\<close>

definition is_space :: "char \<Rightarrow> bool" where
  "is_space c = ((of_char c :: nat) \<in> {9, 10, 11, 12, 13, 28, 29, 30, 31, 32, 133, 160})"

text \<open>\<^verbatim>\<open>s.strip(chars)\<close>, the characters to remove given as a predicate.\<close>

definition strip_where :: "(char \<Rightarrow> bool) \<Rightarrow> string \<Rightarrow> string" where
  "strip_where P s = rev (dropWhile P (rev (dropWhile P s)))"

text \<open>\<^verbatim>\<open>s.strip()\<close> and \<^verbatim>\<open>s.strip('.')\<close>.\<close>

definition strip :: "string \<Rightarrow> string" where
  "strip s = strip_where is_space s"

definition strip_dots :: "string \<Rightarrow> string" where
  "strip_dots s = strip_where (\<lambda>c. c = CHR ''.'') s"

text \<open>\<^verbatim>\<open>s.split(sep)\<close> for a separator of one character.\<close>

fun split_on :: "char \<Rightarrow> string \<Rightarrow> string list" where
  "split_on sep [] = [[]]"
| "split_on sep (c # cs) =
     (if c = sep then [] # split_on sep cs
      else (case split_on sep cs of
              [] \<Rightarrow> [[c]]
            | p # ps \<Rightarrow> (c # p) # ps))"

text \<open>\<^verbatim>\<open>sep.join(parts)\<close>.\<close>

fun join :: "string \<Rightarrow> string list \<Rightarrow> string" where
  "join sep [] = []"
| "join sep [p] = p"
| "join sep (p # q # ps) = p @ sep @ join sep (q # ps)"

text \<open>\<^verbatim>\<open>old in content\<close> on strings: \<open>old\<close> occurs in \<open>content\<close> as a substring.\<close>

fun contains :: "string \<Rightarrow> string \<Rightarrow> bool" where
  "contains old [] = (old = [])"
| "contains old (c # cs) = (take (length old) (c # cs) = old \<or> contains old cs)"

text \<open>
  \<^verbatim>\<open>content.replace(old, new)\<close>: every occurrence, scanning from the left without
  overlap; an empty \<open>old\<close> matches before every character and at the end.
\<close>

fun replace_from :: "nat \<Rightarrow> string \<Rightarrow> string \<Rightarrow> string \<Rightarrow> string" where
  "replace_from skip old new [] = []"
| "replace_from (Suc skip) old new (c # cs) = replace_from skip old new cs"
| "replace_from 0 old new (c # cs) =
     (if take (length old) (c # cs) = old
      then new @ replace_from (length old - 1) old new cs
      else c # replace_from 0 old new cs)"

definition py_replace :: "string \<Rightarrow> string \<Rightarrow> string \<Rightarrow> string" where
  "py_replace content old new =
     (if old = [] then new @ concat (map (\<lambda>c. c # new) content)
      else replace_from 0 old new content)"

text \<open>\<^verbatim>\<open>s.lower()\<close> on code points below 256.\<close>

definition lower_char :: "char \<Rightarrow> char" where
  "lower_char c =
     (let n = (of_char c :: nat)
      in if (65 \<le> n \<and> n \<le> 90) \<or> (192 \<le> n \<and> n \<le> 222 \<and> n \<noteq> 215)
         then char_of (n + 32) else c)"

definition lower :: "string \<Rightarrow> string" where
  "lower s = map lower_char s"

subsection \<open>\<^verbatim>\<open>str(v)\<close> and \<^verbatim>\<open>repr(v)\<close>\<close>

fun digits :: "nat \<Rightarrow> string" where
  "digits n = (if n < 10 then [char_of (48 + n)]
               else digits (n div 10) @ [char_of (48 + n mod 10)])"

declare digits.simps [simp del]

text \<open>
  \<^verbatim>\<open>str(i)\<close> of an integer raises \<^verbatim>\<open>ValueError\<close> when the integer has more decimal digits
  than \<^verbatim>\<open>sys.get_int_max_str_digits()\<close>, which is 4300 unless the interpreter was told
  otherwise.
\<close>

definition int_max_str_digits :: nat where
  "int_max_str_digits = 4300"

definition str_int :: "int \<Rightarrow> error + string" where
  "str_int i =
     (let ds = digits (nat \<bar>i\<bar>)
      in if int_max_str_digits < length ds then Inl ValueError
         else Inr (if i < 0 then CHR ''-'' # ds else ds))"

definition hex_digit :: "nat \<Rightarrow> char" where
  "hex_digit n = (if n < 10 then char_of (48 + n) else char_of (87 + n))"

definition is_printable :: "char \<Rightarrow> bool" where
  "is_printable c =
     (let n = (of_char c :: nat)
      in (32 \<le> n \<and> n < 127) \<or> (161 \<le> n \<and> n \<noteq> 173))"

definition repr_char :: "char \<Rightarrow> char \<Rightarrow> string" where
  "repr_char quote c =
     (if c = quote \<or> c = CHR 0x5C then [CHR 0x5C, c]
      else if c = CHR 0x09 then [CHR 0x5C, CHR ''t'']
      else if c = CHR 0x0A then [CHR 0x5C, CHR ''n'']
      else if c = CHR 0x0D then [CHR 0x5C, CHR ''r'']
      else if is_printable c then [c]
      else [CHR 0x5C, CHR ''x'',
            hex_digit ((of_char c :: nat) div 16), hex_digit ((of_char c :: nat) mod 16)])"

definition repr_str :: "string \<Rightarrow> string" where
  "repr_str s =
     (let quote = (if CHR 0x27 \<in> set s \<and> CHR 0x22 \<notin> set s then CHR 0x22 else CHR 0x27)
      in quote # concat (map (repr_char quote) s) @ [quote])"

text \<open>The results of a list of calls in order, or the first exception among them.\<close>

fun sequence :: "(error + 'a) list \<Rightarrow> error + 'a list" where
  "sequence [] = Inr []"
| "sequence (Inl e # rs) = Inl e"
| "sequence (Inr x # rs) = (case sequence rs of Inl e \<Rightarrow> Inl e | Inr xs \<Rightarrow> Inr (x # xs))"

fun py_repr :: "pyval \<Rightarrow> error + string" where
  "py_repr PNone = Inr ''None''"
| "py_repr (PBool b) = Inr (if b then ''True'' else ''False'')"
| "py_repr (PInt i) = str_int i"
| "py_repr (PStr s) = Inr (repr_str s)"
| "py_repr (PList vs) =
     (case sequence (map py_repr vs) of
        Inl e \<Rightarrow> Inl e
      | Inr parts \<Rightarrow> Inr (''['' @ join '', '' parts @ '']''))"
| "py_repr (PDict d) =
     (case sequence (map (\<lambda>kv. case py_repr (snd kv) of
                                  Inl e \<Rightarrow> Inl e
                                | Inr r \<Rightarrow> Inr (repr_str (fst kv) @ '': '' @ r)) d) of
        Inl e \<Rightarrow> Inl e
      | Inr parts \<Rightarrow> Inr (''{'' @ join '', '' parts @ ''}''))"

definition py_str :: "pyval \<Rightarrow> error + string" where
  "py_str v = (case v of PStr s \<Rightarrow> Inr s | _ \<Rightarrow> py_repr v)"

section \<open>Keys: \<^verbatim>\<open>split_key_by_dot\<close>, \<^verbatim>\<open>merge_args_to_key\<close>, \<^verbatim>\<open>get_template_text\<close>\<close>

definition split_key_by_dot :: "string \<Rightarrow> string list" where
  "split_key_by_dot key =
     (if key = [] then []
      else (let key' = strip key
            in if key' = [] then []
               else map strip (filter (\<lambda>part. strip part \<noteq> []) (split_on CHR ''.'' key'))))"

text \<open>
  The loop of \<^verbatim>\<open>merge_args_to_key\<close> over its arguments, \<open>processed_parts\<close> as the
  accumulator; an argument that is not a string raises \<^verbatim>\<open>TypeError\<close>.
\<close>

fun merge_args_loop :: "pyval list \<Rightarrow> string list \<Rightarrow> error + string list" where
  "merge_args_loop [] processed_parts = Inr processed_parts"
| "merge_args_loop (PStr i # args) processed_parts =
     (let part = strip_dots (strip i)
      in if part = [] then merge_args_loop args processed_parts
         else merge_args_loop args (processed_parts @ [part]))"
| "merge_args_loop (_ # args) processed_parts = Inl TypeError"

definition merge_args_to_key :: "pyval list \<Rightarrow> error + string" where
  "merge_args_to_key args =
     (case merge_args_loop args [] of
        Inl e \<Rightarrow> Inl e
      | Inr processed_parts \<Rightarrow> Inr (join ''.'' processed_parts))"

definition get_template_text :: "string \<Rightarrow> string \<Rightarrow> error + string" where
  "get_template_text mode key =
     (if mode \<noteq> ''i18n'' \<and> mode \<noteq> ''env'' then Inl TypeError
      else Inr (mode @ '':'' @ key))"

section \<open>The resolver \<^verbatim>\<open>get_actual_content\<close>\<close>

text \<open>
  The \<^verbatim>\<open>for\<close> loop over the segments: \<open>None\<close> is the early \<^verbatim>\<open>return fallback\<close>,
  \<open>Some\<close> carries the value of \<^verbatim>\<open>data\<close> when the loop ends. \<^verbatim>\<open>i in data\<close> and
  \<^verbatim>\<open>data[i]\<close> are the lookup \<open>map_of\<close>.
\<close>

fun descend :: "string list \<Rightarrow> pyval \<Rightarrow> pyval option" where
  "descend [] data = Some data"
| "descend (i # args) (PDict d) =
     (case map_of d i of
        Some v \<Rightarrow> descend args v
      | None \<Rightarrow> None)"
| "descend (i # args) _ = None"

text \<open>
  The body of the \<^verbatim>\<open>try\<close>, the segments given: it returns a text, or \<^verbatim>\<open>str(data)\<close> raises.
\<close>

definition get_actual_content_try :: "string list \<Rightarrow> pyval \<Rightarrow> string \<Rightarrow> error + string" where
  "get_actual_content_try args data fallback =
     (case descend args data of
        None \<Rightarrow> Inr fallback
      | Some (PStr s) \<Rightarrow> Inr s
      | Some PNone \<Rightarrow> Inr fallback
      | Some v \<Rightarrow> py_str v)"

text \<open>
  \<^verbatim>\<open>get_actual_content\<close>: the branch \<^verbatim>\<open>except Exception\<close> catches whatever the body raises
  and returns \<open>fallback\<close>.
\<close>

definition get_actual_content :: "string \<Rightarrow> pyval \<Rightarrow> string \<Rightarrow> string" where
  "get_actual_content key data fallback =
     (let args = split_key_by_dot key
      in case get_actual_content_try args data fallback of
           Inl e \<Rightarrow> fallback
         | Inr text \<Rightarrow> text)"

section \<open>The flattener \<^verbatim>\<open>load_keys\<close>\<close>

text \<open>
  \<^verbatim>\<open>load_keys\<close> from the line \<^verbatim>\<open>data = load_data(file_path)\<close> on: the argument is
  the value \<^verbatim>\<open>yaml.load\<close> produced for the file, and \<^verbatim>\<open>load_data\<close> raises
  \<^verbatim>\<open>ValueError\<close> when that value is \<^verbatim>\<open>None\<close>.

  The body of the \<^verbatim>\<open>for k, v in key_data.items()\<close> loop. The stack is a Python list:
  \<^verbatim>\<open>append\<close> adds at the end and \<^verbatim>\<open>pop\<close> takes the last entry. Keys are strings, so
  the test \<^verbatim>\<open>p is None\<close> never holds and \<^verbatim>\<open>if p\<close> keeps the non-empty ones.
\<close>

fun load_keys_for ::
  "string list \<Rightarrow> (string \<times> pyval) list \<Rightarrow> (string list \<times> pyval) list \<Rightarrow> string list
     \<Rightarrow> error + ((string list \<times> pyval) list \<times> string list)" where
  "load_keys_for key_path [] stack keys = Inr (stack, keys)"
| "load_keys_for key_path ((k, v) # items) stack keys =
     (let new_key_path = key_path @ [k]
      in case v of
           PDict d \<Rightarrow> load_keys_for key_path items (stack @ [(new_key_path, v)]) keys
         | _ \<Rightarrow>
             (if new_key_path \<noteq> []
              then (let processed_parts = filter (\<lambda>p. p \<noteq> []) new_key_path
                    in case merge_args_to_key (map PStr processed_parts) of
                         Inl e \<Rightarrow> Inl e
                       | Inr key \<Rightarrow> load_keys_for key_path items stack (keys @ [key]))
              else load_keys_for key_path items stack keys))"

text \<open>The number of dictionaries inside a value, lists not entered: what the loop can still push.\<close>

fun weight :: "pyval \<Rightarrow> nat" where
  "weight (PDict d) = Suc (sum_list (map (\<lambda>kv. weight (snd kv)) d))"
| "weight _ = 0"

definition stack_weight :: "(string list \<times> pyval) list \<Rightarrow> nat" where
  "stack_weight stack = sum_list (map (\<lambda>e. weight (snd e)) stack)"

lemma load_keys_for_weight:
  "load_keys_for key_path items stack keys = Inr (stack', keys') \<Longrightarrow>
   stack_weight stack' \<le> stack_weight stack + sum_list (map (\<lambda>kv. weight (snd kv)) items)"
proof (induction items arbitrary: stack keys)
  case Nil
  then show ?case by simp
next
  case (Cons kv items)
  obtain k v where kv: "kv = (k, v)" by (cases kv)
  show ?case
  proof (cases v)
    case (PDict d)
    with Cons.prems kv
    have "load_keys_for key_path items (stack @ [(key_path @ [k], v)]) keys = Inr (stack', keys')"
      by simp
    from Cons.IH [OF this] show ?thesis
      by (simp add: kv stack_weight_def)
  qed (use Cons kv in \<open>auto simp: Let_def split: sum.splits\<close>)
qed

text \<open>The \<^verbatim>\<open>while stack\<close> loop; \<^verbatim>\<open>.items()\<close> of a value that is no dictionary raises.\<close>

function load_keys_while ::
  "(string list \<times> pyval) list \<Rightarrow> string list \<Rightarrow> error + string list" where
  "load_keys_while stack keys =
     (if stack = [] then Inr keys
      else (case snd (last stack) of
              PDict key_data \<Rightarrow>
                (case load_keys_for (fst (last stack)) key_data (butlast stack) keys of
                   Inl e \<Rightarrow> Inl e
                 | Inr (stack', keys') \<Rightarrow> load_keys_while stack' keys')
            | _ \<Rightarrow> Inl AttributeError))"
  by pat_completeness auto
termination
proof (relation "measure (\<lambda>(stack, keys). stack_weight stack)", goal_cases)
  case 1
  show ?case by simp
next
  case (2 stack keys key_data res stack' keys')
  from 2(1) have "stack = butlast stack @ [last stack]" by simp
  then have "stack_weight stack = stack_weight (butlast stack) + weight (snd (last stack))"
    unfolding stack_weight_def by (metis (no_types, lifting) list.simps(8,9) map_append
      sum_list.Cons sum_list.Nil sum_list_append add.right_neutral)
  moreover from 2 have "stack_weight stack' \<le>
      stack_weight (butlast stack) + sum_list (map (\<lambda>kv. weight (snd kv)) key_data)"
    using load_keys_for_weight by metis
  ultimately show ?case using 2(2) by simp
qed

declare load_keys_while.simps [simp del]

text \<open>The loop that removes duplicates, keeping the first occurrence.\<close>

fun unique_loop :: "string list \<Rightarrow> string set \<Rightarrow> string list \<Rightarrow> string list" where
  "unique_loop [] seen unique_keys = unique_keys"
| "unique_loop (i # keys) seen unique_keys =
     (if i \<notin> seen then unique_loop keys (insert i seen) (unique_keys @ [i])
      else unique_loop keys seen unique_keys)"

definition load_keys :: "pyval \<Rightarrow> error + string list" where
  "load_keys data =
     (if data = PNone then Inl ValueError
      else (case load_keys_while [([], data)] [] of
              Inl e \<Rightarrow> Inl e
            | Inr keys \<Rightarrow> Inr (sort (unique_loop keys {} []))))"

section \<open>The registry and the two lookups that read it\<close>

text \<open>
  Modelled from the spec: the module \<^verbatim>\<open>runtime\<close>, which holds the content registry, is
  not among the sources. The spec describes it as one nested map and one flattened key
  list for the environment, and one of each per language identifier; \<^verbatim>\<open>main.py\<close> and
  \<^verbatim>\<open>utils.py\<close> read and write the four attributes below. The registry is passed to the
  functions that read it.
\<close>

record runtime =
  DATA_ENV :: pyval
  DATA_ENV_KEYS :: "string list"
  DATA_I18N :: "string \<rightharpoonup> pyval"
  DATA_I18N_TRKEYS :: "string \<rightharpoonup> string list"

text \<open>The truth value Python gives a value in \<^verbatim>\<open>if data:\<close>.\<close>

fun truthy :: "pyval \<Rightarrow> bool" where
  "truthy PNone = False"
| "truthy (PBool b) = b"
| "truthy (PInt i) = (i \<noteq> 0)"
| "truthy (PStr s) = (s \<noteq> [])"
| "truthy (PList vs) = (vs \<noteq> [])"
| "truthy (PDict d) = (d \<noteq> [])"

text \<open>\<^verbatim>\<open>v.copy()\<close>: dictionaries and lists have the method, the other values do not.\<close>

fun py_copy :: "pyval \<Rightarrow> error + pyval" where
  "py_copy (PDict d) = Inr (PDict d)"
| "py_copy (PList vs) = Inr (PList vs)"
| "py_copy _ = Inl AttributeError"

text \<open>The default \<^verbatim>\<open>data=None\<close> is the argument \<open>PNone\<close>.\<close>

definition get_actual_env_content :: "runtime \<Rightarrow> string \<Rightarrow> pyval \<Rightarrow> error + string" where
  "get_actual_env_content rt key data =
     (case get_template_text ''env'' key of
        Inl e \<Rightarrow> Inl e
      | Inr fallback \<Rightarrow>
          (if truthy data then Inr (get_actual_content key data fallback)
           else (case py_copy (DATA_ENV rt) of
                   Inl e \<Rightarrow> Inl e
                 | Inr data' \<Rightarrow> Inr (get_actual_content key data' fallback))))"

definition get_actual_i18n_content ::
  "runtime \<Rightarrow> string \<Rightarrow> string \<Rightarrow> pyval \<Rightarrow> error + string" where
  "get_actual_i18n_content rt key lang_file data =
     (case get_template_text ''i18n'' key of
        Inl e \<Rightarrow> Inl e
      | Inr fallback \<Rightarrow>
          (case DATA_I18N rt lang_file of
             None \<Rightarrow> Inl KeyError
           | Some registered \<Rightarrow>
               (if truthy data then Inr (get_actual_content key data fallback)
                else (case py_copy registered of
                        Inl e \<Rightarrow> Inl e
                      | Inr data' \<Rightarrow> Inr (get_actual_content key data' fallback)))))"

section \<open>Files and \<^verbatim>\<open>replace_text_in_file\<close>\<close>

text \<open>
  A path is its string. What is at a path is a directory or a text file with the text
  stored in it and whether the process may read and write it. The world also records
  every read and write of a file's content, in order. What the platform brings is a
  parameter of the functions: \<^verbatim>\<open>Path.suffix\<close> as \<^verbatim>\<open>pathlib\<close> computes it, and
  \<^verbatim>\<open>os.linesep\<close>. Opening a directory raises as on POSIX. Console output and the encoding of
  the text are not modelled.
\<close>

record platform =
  suffix_of :: "string \<Rightarrow> string"
  linesep :: string

text \<open>
  \<^verbatim>\<open>open(path, 'r')\<close> and \<^verbatim>\<open>open(path, 'w')\<close> are in text mode with universal newlines:
  reading turns every CR LF and every other CR into LF, writing turns every LF into
  \<^verbatim>\<open>os.linesep\<close>.
\<close>

fun read_newlines :: "string \<Rightarrow> string" where
  "read_newlines [] = []"
| "read_newlines [c] = [if c = CHR 0x0D then CHR 0x0A else c]"
| "read_newlines (c # d # cs) =
     (if c = CHR 0x0D
      then (if d = CHR 0x0A then CHR 0x0A # read_newlines cs
            else CHR 0x0A # read_newlines (d # cs))
      else c # read_newlines (d # cs))"

definition write_newlines :: "string \<Rightarrow> string \<Rightarrow> string" where
  "write_newlines sep text = concat (map (\<lambda>c. if c = CHR 0x0A then sep else [c]) text)"

datatype entry = Directory | File string bool bool

datatype fs_op = Read string | Write string string

record world =
  files :: "string \<rightharpoonup> entry"
  ops :: "fs_op list"

text \<open>How a call ends: it returns, the process exits with a status, or an exception escapes.\<close>

datatype outcome = Returned | Exited nat | Raised error

text \<open>
  \<^verbatim>\<open>replace_text_in_file\<close>. \<open>stored\<close> is the text in the file, \<open>content\<close> what \<^verbatim>\<open>f.read()\<close>
  returns; a \<^verbatim>\<open>PermissionError\<close> of either \<^verbatim>\<open>open\<close> is caught and the call returns.
\<close>

definition replace_text_in_file ::
  "platform \<Rightarrow> world \<Rightarrow> string \<Rightarrow> string \<Rightarrow> string \<Rightarrow> bool \<Rightarrow> outcome \<times> world" where
  "replace_text_in_file pf w path new_text old_text ignore_format_warning =
     (case files w path of
        None \<Rightarrow> (Returned, w)
      | Some e \<Rightarrow>
          (if \<not> ignore_format_warning \<and> \<not> contains ''html'' (lower (suffix_of pf path))
           then (Exited 255, w)
           else (case e of
                   Directory \<Rightarrow> (Raised IsADirectoryError, w)
                 | File stored may_read may_write \<Rightarrow>
                     (if \<not> may_read then (Returned, w)
                      else (let content = read_newlines stored;
                                w1 = w\<lparr>ops := ops w @ [Read path]\<rparr>
                            in if \<not> contains old_text content then (Returned, w1)
                               else (let new_content = py_replace content old_text new_text;
                                         written = write_newlines (linesep pf) new_content
                                     in if \<not> may_write then (Returned, w1)
                                        else (Returned,
                                              w1\<lparr>files := (files w1)(path \<mapsto>
                                                     File written may_read may_write),
                                                 ops := ops w1 @ [Write path written]\<rparr>)))))))"

section \<open>\<^verbatim>\<open>main.py\<close>: naming the output file and the two passes\<close>

definition find_char :: "char \<Rightarrow> string \<Rightarrow> int" where
  "find_char c s = (if c \<in> set s then int (length (takeWhile (\<lambda>x. x \<noteq> c) s)) else - 1)"

definition get_string_removed_dot_and_after :: "string \<Rightarrow> string" where
  "get_string_removed_dot_and_after string =
     (let index = find_char CHR ''.'' string
      in if index \<le> 0 then [] else take (nat index) string)"

definition HTML_TEMPLATE_FILE_NAME :: string where
  "HTML_TEMPLATE_FILE_NAME = ''index.template.html''"

record globals =
  LANG_LIST :: "string list"
  HTML_COPIED_FILE_NAME :: string
  HTML_COPIED_FILE :: string

text \<open>
  \<^verbatim>\<open>HTML_TEMPLATE_FILE.copy(target=HTML_COPIED_FILE)\<close>: the content of a readable file
  is written to the target, which keeps its permissions when it was there before.
\<close>

definition copy_file :: "world \<Rightarrow> string \<Rightarrow> string \<Rightarrow> outcome \<times> world" where
  "copy_file w source target =
     (case files w source of
        None \<Rightarrow> (Raised FileNotFoundError, w)
      | Some Directory \<Rightarrow> (Raised IsADirectoryError, w)
      | Some (File content may_read may_write) \<Rightarrow>
          (if \<not> may_read then (Raised PermissionError, w)
           else (let w1 = w\<lparr>ops := ops w @ [Read source]\<rparr>
                 in case files w target of
                      None \<Rightarrow> (Returned, w1\<lparr>files := (files w1)(target \<mapsto> File content True True),
                                             ops := ops w1 @ [Write target content]\<rparr>)
                    | Some Directory \<Rightarrow> (Raised IsADirectoryError, w1)
                    | Some (File old r' w') \<Rightarrow>
                        (if \<not> w' then (Raised PermissionError, w1)
                         else (Returned, w1\<lparr>files := (files w1)(target \<mapsto> File content r' w'),
                                            ops := ops w1 @ [Write target content]\<rparr>)))))"

text \<open>
  \<^verbatim>\<open>on_user_input\<close>, the line read from the console given as \<open>user_input\<close>; when it
  returns, it returns \<open>user_input\<close>.
\<close>

definition on_user_input :: "globals \<Rightarrow> world \<Rightarrow> string \<Rightarrow> outcome \<times> globals \<times> world" where
  "on_user_input g w user_input =
     (if user_input \<notin> set (LANG_LIST g) then (Exited 255, g, w)
      else (let name = py_replace HTML_TEMPLATE_FILE_NAME ''template''
                         (get_string_removed_dot_and_after user_input);
                g' = g\<lparr>HTML_COPIED_FILE_NAME := name, HTML_COPIED_FILE := name\<rparr>
            in case copy_file w HTML_TEMPLATE_FILE_NAME (HTML_COPIED_FILE g') of
                 (out, w') \<Rightarrow> (out, g', w')))"

text \<open>The two \<^verbatim>\<open>for\<close> loops of \<^verbatim>\<open>main\<close>; a loop stops when a call does not return.\<close>

fun main_env_loop ::
  "platform \<Rightarrow> runtime \<Rightarrow> globals \<Rightarrow> string list \<Rightarrow> world \<Rightarrow> outcome \<times> world" where
  "main_env_loop pf rt g [] w = (Returned, w)"
| "main_env_loop pf rt g (i # keys) w =
     (case get_template_text ''env'' i of
        Inl e \<Rightarrow> (Raised e, w)
      | Inr old_text \<Rightarrow>
          (case get_actual_env_content rt i PNone of
             Inl e \<Rightarrow> (Raised e, w)
           | Inr new_text \<Rightarrow>
               (case replace_text_in_file pf w (HTML_COPIED_FILE g) new_text old_text False of
                  (Returned, w') \<Rightarrow> main_env_loop pf rt g keys w'
                | (out, w') \<Rightarrow> (out, w'))))"

fun main_i18n_loop ::
  "platform \<Rightarrow> runtime \<Rightarrow> globals \<Rightarrow> string \<Rightarrow> string list \<Rightarrow> world
     \<Rightarrow> outcome \<times> world" where
  "main_i18n_loop pf rt g lang_file [] w = (Returned, w)"
| "main_i18n_loop pf rt g lang_file (i # keys) w =
     (case get_template_text ''i18n'' i of
        Inl e \<Rightarrow> (Raised e, w)
      | Inr old_text \<Rightarrow>
          (case get_actual_i18n_content rt i lang_file PNone of
             Inl e \<Rightarrow> (Raised e, w)
           | Inr new_text \<Rightarrow>
               (case replace_text_in_file pf w (HTML_COPIED_FILE g) new_text old_text False of
                  (Returned, w') \<Rightarrow> main_i18n_loop pf rt g lang_file keys w'
                | (out, w') \<Rightarrow> (out, w'))))"

definition main ::
  "platform \<Rightarrow> runtime \<Rightarrow> globals \<Rightarrow> string \<Rightarrow> world \<Rightarrow> outcome \<times> world" where
  "main pf rt g lang_file w =
     (case main_env_loop pf rt g (DATA_ENV_KEYS rt) w of
        (Returned, w1) \<Rightarrow>
          (case DATA_I18N_TRKEYS rt lang_file of
             None \<Rightarrow> (Raised KeyError, w1)
           | Some i18n_keys \<Rightarrow> main_i18n_loop pf rt g lang_file i18n_keys w1)
      | (out, w1) \<Rightarrow> (out, w1))"

section \<open>Notions of the specification\<close>



text \<open>
  A value of which \<^verbatim>\<open>str\<close> raises: it is, or holds in a list or a map at any depth, an
  integer of more decimal digits than the limit.
\<close>

fun str_raises :: "pyval \<Rightarrow> bool" where
  "str_raises (PInt i) = (int_max_str_digits < length (digits (nat \<bar>i\<bar>)))"
| "str_raises (PList vs) = list_ex str_raises vs"
| "str_raises (PDict d) = list_ex (\<lambda>kv. str_raises (snd kv)) d"
| "str_raises v = False"

text \<open>The suffix of an HTML file: \<^verbatim>\<open>.html\<close> or \<^verbatim>\<open>.htm\<close>, in any case of the letters.\<close>

definition html_suffix :: "string \<Rightarrow> bool" where
  "html_suffix s = (lower s = ''.html'' \<or> lower s = ''.htm'')"

text \<open>
  The text that a call of \<^verbatim>\<open>replace_text_in_file\<close> leaves in a file it may read and write:
  the file is rewritten when the old text occurs in what was read, and untouched otherwise.
\<close>

definition substituted :: "platform \<Rightarrow> string \<Rightarrow> string \<Rightarrow> string \<Rightarrow> string" where
  "substituted pf stored old_text new_text =
     (let content = read_newlines stored
      in if contains old_text content
         then write_newlines (linesep pf) (py_replace content old_text new_text)
         else stored)"

text \<open>Whether a value is a nested map: the test \<^verbatim>\<open>isinstance(v, dict)\<close>.\<close>

fun is_dict :: "pyval \<Rightarrow> bool" where
  "is_dict (PDict d) = True"
| "is_dict _ = False"

text \<open>
  The leaves below a value with the key path that leads to each, the path so far given
  as \<open>path\<close>: a leaf is any value that is not a map, and lists are not entered.
\<close>

fun leaves_of :: "string list \<Rightarrow> pyval \<Rightarrow> (string list \<times> pyval) list" where
  "leaves_of path (PDict d) = concat (map (\<lambda>kv. leaves_of (path @ [fst kv]) (snd kv)) d)"
| "leaves_of path v = [(path, v)]"

text \<open>The dotted key of a key path: segments trimmed, empty ones dropped, joined by dots.\<close>

definition path_key :: "string list \<Rightarrow> string" where
  "path_key path = join ''.'' (filter (\<lambda>p. p \<noteq> []) (map (\<lambda>p. strip_dots (strip p)) path))"

text \<open>The keys that the entries of a stack of \<^verbatim>\<open>load_keys\<close> still have to give.\<close>

definition stack_keys :: "(string list \<times> pyval) list \<Rightarrow> string set" where
  "stack_keys stack = (\<Union>e\<in>set stack. path_key ` fst ` set (leaves_of (fst e) (snd e)))"

text \<open>A value with every item whose value is an empty map removed, at every depth.\<close>

fun prune :: "pyval \<Rightarrow> pyval" where
  "prune (PDict d) =
     PDict (map (\<lambda>kv. (fst kv, prune (snd kv))) (filter (\<lambda>kv. snd kv \<noteq> PDict []) d))"
| "prune v = v"

text \<open>
  A key that the dotted form can carry: not empty, without a dot, and without whitespace
  at either end. \<open>clean_keys\<close> asks it of every key of a nested map.
\<close>

definition clean_key :: "string \<Rightarrow> bool" where
  "clean_key k = (k \<noteq> [] \<and> CHR ''.'' \<notin> set k \<and> \<not> is_space (hd k) \<and> \<not> is_space (last k))"

fun clean_keys :: "pyval \<Rightarrow> bool" where
  "clean_keys (PDict d) = list_all (\<lambda>kv. clean_key (fst kv) \<and> clean_keys (snd kv)) d"
| "clean_keys v = True"

section \<open>Evaluation on concrete inputs\<close>

lemmas eval_keys = split_key_by_dot_def strip_def strip_dots_def strip_where_def is_space_def
  merge_args_to_key_def

lemmas eval_resolve = get_actual_content_def get_actual_content_try_def

section \<open>The resolver\<close>


lemma sequence_all_Inr:
  "\<forall>x\<in>set xs. \<exists>y. f x = Inr y \<Longrightarrow> \<exists>ys. sequence (map f xs) = Inr ys"
proof (induction xs)
  case Nil
  show ?case by simp
next
  case (Cons x xs)
  then obtain y ys where "f x = Inr y" "sequence (map f xs) = Inr ys" by auto
  then show ?case by simp
qed

lemma sequence_some_Inl:
  "\<forall>x\<in>set xs. (\<exists>y. f x = Inr y) \<or> f x = Inl e \<Longrightarrow> \<exists>x\<in>set xs. f x = Inl e \<Longrightarrow>
   sequence (map f xs) = Inl e"
proof (induction xs)
  case Nil
  then show ?case by simp
next
  case (Cons x xs)
  show ?case
  proof (cases "f x")
    case (Inl a)
    with Cons.prems(1) have "a = e" by auto
    with Inl show ?thesis by simp
  next
    case (Inr y)
    with Cons.prems have "\<exists>x\<in>set xs. f x = Inl e" by auto
    with Cons have "sequence (map f xs) = Inl e" by simp
    with Inr show ?thesis by simp
  qed
qed

lemma py_repr_raises:
  "(str_raises v \<longrightarrow> py_repr v = Inl ValueError) \<and> (\<not> str_raises v \<longrightarrow> (\<exists>r. py_repr v = Inr r))"
proof (induction v rule: py_repr.induct)
  case (3 i)
  show ?case by (simp add: str_int_def Let_def)
next
  case (5 vs)
  show ?case
  proof (cases "list_ex str_raises vs")
    case True
    have "\<forall>x\<in>set vs. (\<exists>y. py_repr x = Inr y) \<or> py_repr x = Inl ValueError"
      using 5 by blast
    moreover have "\<exists>x\<in>set vs. py_repr x = Inl ValueError"
      using True 5 by (auto simp: list_ex_iff)
    ultimately have "sequence (map py_repr vs) = Inl ValueError" by (rule sequence_some_Inl)
    with True show ?thesis by simp
  next
    case False
    then have "\<forall>x\<in>set vs. \<exists>y. py_repr x = Inr y" using 5 by (auto simp: list_ex_iff)
    then obtain ys where "sequence (map py_repr vs) = Inr ys"
      using sequence_all_Inr [of vs py_repr] by blast
    with False show ?thesis by simp
  qed
next
  case (6 d)
  let ?f = "\<lambda>kv. case py_repr (snd kv) of Inl e \<Rightarrow> Inl e
                  | Inr r \<Rightarrow> Inr (repr_str (fst kv) @ '': '' @ r)"
  have each: "\<And>kv. kv \<in> set d \<Longrightarrow>
      (str_raises (snd kv) \<longrightarrow> ?f kv = Inl ValueError)
      \<and> (\<not> str_raises (snd kv) \<longrightarrow> (\<exists>y. ?f kv = Inr y))"
  proof -
    fix kv assume "kv \<in> set d"
    from 6 [OF this] show "(str_raises (snd kv) \<longrightarrow> ?f kv = Inl ValueError)
      \<and> (\<not> str_raises (snd kv) \<longrightarrow> (\<exists>y. ?f kv = Inr y))"
      by (cases "str_raises (snd kv)") auto
  qed
  show ?case
  proof (cases "list_ex (\<lambda>kv. str_raises (snd kv)) d")
    case True
    have "\<forall>x\<in>set d. (\<exists>y. ?f x = Inr y) \<or> ?f x = Inl ValueError"
      using each by blast
    moreover from True obtain x where "x \<in> set d" "str_raises (snd x)"
      by (auto simp: list_ex_iff)
    with each have "\<exists>x\<in>set d. ?f x = Inl ValueError" by blast
    ultimately have "sequence (map ?f d) = Inl ValueError" by (rule sequence_some_Inl)
    with True show ?thesis by simp
  next
    case False
    then have "\<forall>x\<in>set d. \<not> str_raises (snd x)" by (simp add: list_ex_iff)
    with each have "\<forall>x\<in>set d. \<exists>y. ?f x = Inr y" by blast
    from sequence_all_Inr [of d ?f, OF this]
    obtain ys where "sequence (map ?f d) = Inr ys" by blast
    with False show ?thesis by simp
  qed
qed simp_all

lemma py_str_raises: "str_raises v \<Longrightarrow> py_str v = Inl ValueError"
  using py_repr_raises [of v] by (cases v) (simp_all add: py_str_def)

lemma py_str_returns: "\<not> str_raises v \<Longrightarrow> \<exists>s. py_str v = Inr s"
  using py_repr_raises [of v] by (cases v) (simp_all add: py_str_def)

lemma py_str_raises_iff: "(\<exists>e. py_str v = Inl e) = str_raises v"
  using py_str_raises [of v] py_str_returns [of v] by (cases "str_raises v") auto






lemma strip_where_all: "\<forall>c\<in>set s. P c \<Longrightarrow> strip_where P s = []"
proof -
  assume a: "\<forall>c\<in>set s. P c"
  then have d: "dropWhile P s = []" by (induction s) auto
  show ?thesis unfolding strip_where_def d by simp
qed

lemma split_blank: "\<forall>c\<in>set key. is_space c \<Longrightarrow> split_key_by_dot key = []"
  by (simp add: split_key_by_dot_def strip_def strip_where_all)

text \<open>
  Claim C4, as amended. An empty or whitespace-only key splits into the empty segment
  list. The resolver then walks no segment and decides on the data itself: for a map it
  returns the textual form of the whole map, not the fallback. The fallback comes back
  when the data is \<^verbatim>\<open>None\<close>, and when \<^verbatim>\<open>str\<close> of the map raises, which it does exactly when
  the map holds, at any depth, an integer of more than 4300 digits.
\<close>

theorem empty_key_resolves_to_data:
  "\<forall>c\<in>set key. is_space c \<Longrightarrow>
   split_key_by_dot key = []
   \<and> get_actual_content key (PDict d) fallback =
       (case py_str (PDict d) of Inl e \<Rightarrow> fallback | Inr text \<Rightarrow> text)
   \<and> ((\<exists>e. py_str (PDict d) = Inl e) = str_raises (PDict d))
   \<and> get_actual_content key PNone fallback = fallback"
  by (simp add: split_blank eval_resolve py_str_raises_iff del: str_raises.simps)

theorem empty_key_resolves_to_data_witness:
  "split_key_by_dot ''  '' = []
   \<and> get_actual_content ''  '' (PDict []) ''FB'' = ''{}''
   \<and> get_actual_content ''  '' PNone ''FB'' = ''FB''"
proof -
  have h: "\<forall>c\<in>set ''  ''. is_space c" by (simp add: is_space_def)
  have t: "py_str (PDict []) = Inr ''{}''" by (simp add: py_str_def)
  from empty_key_resolves_to_data [OF h, of "[]" "''FB''"] show ?thesis unfolding t by simp
qed

text \<open>
  The claim as the specification states it fails: a whitespace-only key resolved against
  the empty map gives the text of the map, and the empty key resolved against a map with
  one item gives a text other than the fallback.
\<close>

theorem empty_key_counterexample:
  "split_key_by_dot ''  '' = []
   \<and> get_actual_content ''  '' (PDict []) ''FB'' = ''{}''
   \<and> get_actual_content [] (PDict [(''a'', PStr ''X'')]) ''FB'' \<noteq> ''FB''"
  by (simp add: eval_resolve eval_keys py_str_def repr_str_def repr_char_def
      is_printable_def)

section \<open>Scenarios\<close>

text \<open>
  Claim C7 (scenario A). Flattening the map \<^verbatim>\<open>{a: {b: "X"}}\<close> gives exactly the list with
  the one key \<^verbatim>\<open>a.b\<close>; resolving \<^verbatim>\<open>a.b\<close> against it with fallback \<^verbatim>\<open>FB\<close> gives \<^verbatim>\<open>X\<close>, and
  resolving \<^verbatim>\<open>a.c\<close> gives \<^verbatim>\<open>FB\<close>.
\<close>

theorem scenario_A:
  "load_keys (PDict [(''a'', PDict [(''b'', PStr ''X'')])]) = Inr [''a.b'']
   \<and> get_actual_content ''a.b'' (PDict [(''a'', PDict [(''b'', PStr ''X'')])]) ''FB'' = ''X''
   \<and> get_actual_content ''a.c'' (PDict [(''a'', PDict [(''b'', PStr ''X'')])]) ''FB'' = ''FB''"
  by (simp add: load_keys_def load_keys_while.simps eval_resolve eval_keys)

section \<open>The flattener\<close>

lemma merge_args_loop_strings:
  "merge_args_loop (map PStr ps) acc =
     Inr (acc @ filter (\<lambda>p. p \<noteq> []) (map (\<lambda>p. strip_dots (strip p)) ps))"
  by (induction ps arbitrary: acc) (simp_all add: Let_def)

lemma strip_where_Nil: "strip_where P [] = []"
  by (simp add: strip_where_def)

lemma filter_strip_nonempty:
  "filter (\<lambda>p. p \<noteq> []) (map (\<lambda>p. strip_dots (strip p)) (filter (\<lambda>p. p \<noteq> []) path))
   = filter (\<lambda>p. p \<noteq> []) (map (\<lambda>p. strip_dots (strip p)) path)"
  by (induction path) (simp_all add: strip_def strip_dots_def strip_where_Nil)

lemma merge_args_to_key_path:
  "merge_args_to_key (map PStr (filter (\<lambda>p. p \<noteq> []) path)) = Inr (path_key path)"
  by (simp add: merge_args_to_key_def merge_args_loop_strings path_key_def filter_strip_nonempty)

lemma load_keys_for_result:
  "load_keys_for key_path items stack keys =
     Inr (stack @ map (\<lambda>kv. (key_path @ [fst kv], snd kv)) (filter (\<lambda>kv. is_dict (snd kv)) items),
          keys @ map (\<lambda>kv. path_key (key_path @ [fst kv])) (filter (\<lambda>kv. \<not> is_dict (snd kv)) items))"
proof (induction items arbitrary: stack keys)
  case Nil
  show ?case by simp
next
  case (Cons kv items)
  obtain k v where kv: "kv = (k, v)" by (cases kv)
  have mk: "merge_args_to_key (map PStr (filter (\<lambda>p. p \<noteq> []) (key_path @ [k])))
            = Inr (path_key (key_path @ [k]))"
    by (rule merge_args_to_key_path)
  show ?case
    by (cases v) (simp_all add: kv Cons.IH mk Let_def del: filter_append map_append)
qed

lemma leaves_of_nondict: "\<not> is_dict v \<Longrightarrow> leaves_of path v = [(path, v)]"
  by (cases v) simp_all

lemma stack_keys_append: "stack_keys (xs @ ys) = stack_keys xs \<union> stack_keys ys"
  by (auto simp: stack_keys_def)

lemma stack_keys_Nil: "stack_keys [] = {}"
  by (simp add: stack_keys_def)

lemma children_keys:
  "stack_keys [(kp, PDict d)] =
     stack_keys (map (\<lambda>kv. (kp @ [fst kv], snd kv)) (filter (\<lambda>kv. is_dict (snd kv)) d))
     \<union> set (map (\<lambda>kv. path_key (kp @ [fst kv])) (filter (\<lambda>kv. \<not> is_dict (snd kv)) d))"
proof (induction d)
  case Nil
  show ?case by (simp add: stack_keys_def)
next
  case (Cons kv d)
  have split: "stack_keys [(kp, PDict (kv # d))] =
      path_key ` fst ` set (leaves_of (kp @ [fst kv]) (snd kv)) \<union> stack_keys [(kp, PDict d)]"
    by (simp add: stack_keys_def image_Un)
  show ?case
  proof (cases "is_dict (snd kv)")
    case True
    then show ?thesis
      unfolding split Cons.IH by (auto simp: stack_keys_def)
  next
    case False
    then show ?thesis
      unfolding split Cons.IH by (auto simp: stack_keys_def leaves_of_nondict)
  qed
qed

lemma load_keys_while_set:
  "\<forall>e\<in>set stack. is_dict (snd e) \<Longrightarrow>
   \<exists>ks. load_keys_while stack keys = Inr ks \<and> set ks = set keys \<union> stack_keys stack"
proof (induction stack keys rule: load_keys_while.induct)
  case (1 stack keys)
  show ?case
  proof (cases "stack = []")
    case True
    then show ?thesis by (simp add: load_keys_while.simps stack_keys_Nil)
  next
    case False
    then have decomp: "stack = butlast stack @ [last stack]" by simp
    from False "1.prems" have "is_dict (snd (last stack))" by simp
    then obtain d where d: "snd (last stack) = PDict d" by (cases "snd (last stack)") simp_all
    define kp where "kp = fst (last stack)"
    have lst: "last stack = (kp, PDict d)" using d kp_def by (simp add: prod_eq_iff)
    define stack' where "stack' = butlast stack @
        map (\<lambda>kv. (kp @ [fst kv], snd kv)) (filter (\<lambda>kv. is_dict (snd kv)) d)"
    define keys' where "keys' = keys @
        map (\<lambda>kv. path_key (kp @ [fst kv])) (filter (\<lambda>kv. \<not> is_dict (snd kv)) d)"
    have run: "load_keys_for (fst (last stack)) d (butlast stack) keys = Inr (stack', keys')"
      unfolding stack'_def keys'_def kp_def by (rule load_keys_for_result)
    have dicts: "\<forall>e\<in>set stack'. is_dict (snd e)"
      using "1.prems" by (auto simp: stack'_def dest: in_set_butlastD)
    from "1.IH" [OF False d run refl dicts]
    obtain ks where ks: "load_keys_while stack' keys' = Inr ks"
      "set ks = set keys' \<union> stack_keys stack'" by blast
    have step: "load_keys_while stack keys = load_keys_while stack' keys'"
      by (subst load_keys_while.simps) (simp add: False d run)
    have "stack_keys stack = stack_keys (butlast stack) \<union> stack_keys [(kp, PDict d)]"
      using decomp lst stack_keys_append by metis
    then have "set keys' \<union> stack_keys stack' = set keys \<union> stack_keys stack"
      unfolding children_keys by (auto simp: keys'_def stack'_def stack_keys_append)
    with ks step show ?thesis by simp
  qed
qed

lemma unique_loop_set:
  "set (unique_loop keys seen unique_keys) = set unique_keys \<union> (set keys - seen)"
  by (induction keys seen unique_keys rule: unique_loop.induct) auto

lemma unique_loop_distinct:
  "distinct unique_keys \<Longrightarrow> set unique_keys \<subseteq> seen \<Longrightarrow>
   distinct (unique_loop keys seen unique_keys)"
  by (induction keys seen unique_keys rule: unique_loop.induct) auto

lemma load_keys_dict:
  "\<exists>ks. load_keys (PDict d) = Inr ks \<and> sorted ks \<and> distinct ks
        \<and> set ks = path_key ` fst ` set (leaves_of [] (PDict d))"
proof -
  have "\<forall>e\<in>set [([], PDict d)]. is_dict (snd e)" by simp
  from load_keys_while_set [OF this, of "[]"]
  obtain keys where keys: "load_keys_while [([], PDict d)] [] = Inr keys"
    "set keys = stack_keys [([], PDict d)]" by auto
  have "load_keys (PDict d) = Inr (sort (unique_loop keys {} []))"
    by (simp add: load_keys_def keys)
  moreover have "distinct (unique_loop keys {} [])" by (simp add: unique_loop_distinct)
  moreover have "set (unique_loop keys {} []) = path_key ` fst ` set (leaves_of [] (PDict d))"
    using keys(2) by (simp add: unique_loop_set stack_keys_def)
  ultimately show ?thesis by simp
qed

text \<open>
  Claim C5. For every nested map \<^verbatim>\<open>load_keys\<close> returns a list; that list is sorted in
  ascending lexicographic order, holds no entry twice, and its entries are exactly the
  dotted keys of the paths to the leaves of the map.
\<close>

theorem load_keys_sorted_distinct:
  "\<exists>ks. load_keys (PDict d) = Inr ks \<and> sorted ks \<and> distinct ks
        \<and> set ks = path_key ` fst ` set (leaves_of [] (PDict d))"
  by (rule load_keys_dict)

lemma descend_leaf:
  "descend p data = Some v \<Longrightarrow> \<not> is_dict v \<Longrightarrow> (pre @ p, v) \<in> set (leaves_of pre data)"
proof (induction p data arbitrary: pre rule: descend.induct)
  case (1 data)
  then show ?case by (simp add: leaves_of_nondict)
next
  case (2 i args d)
  then obtain u where u: "map_of d i = Some u" "descend args u = Some v"
    by (auto split: option.splits)
  from "2.IH" [OF u(1) u(2) "2.prems"(2), of "pre @ [i]"]
  have "(pre @ i # args, v) \<in> set (leaves_of (pre @ [i]) u)" by simp
  moreover from u(1) have "(i, u) \<in> set d" by (rule map_of_SomeD)
  ultimately show ?case by force
qed simp_all

lemma leaves_of_prune: "leaves_of path (prune v) = leaves_of path v"
proof (induction path v rule: leaves_of.induct)
  case (1 path d)
  have "concat (map (\<lambda>kv. leaves_of (path @ [fst kv]) (prune (snd kv)))
                 (filter (\<lambda>kv. snd kv \<noteq> PDict []) d))
        = concat (map (\<lambda>kv. leaves_of (path @ [fst kv]) (snd kv))
                 (filter (\<lambda>kv. snd kv \<noteq> PDict []) d))"
    using "1.IH" by (induction d) auto
  also have "\<dots> = concat (map (\<lambda>kv. leaves_of (path @ [fst kv]) (snd kv)) d)"
    by (induction d) auto
  finally show ?case by (simp add: comp_def)
qed simp_all

text \<open>
  Claim C6. Leafness goes by type, not by truth value. Whenever the walk along a key path
  ends at a value that is not a map (the empty string, zero and false among them), the
  flattened output holds the dotted key of that path. An empty nested map gives no key:
  removing every item whose value is an empty map, at any depth, leaves the output of
  \<^verbatim>\<open>load_keys\<close> as it was.
\<close>

theorem leafness_by_type:
  "(descend p (PDict d) = Some v \<and> \<not> is_dict v \<longrightarrow>
      (\<exists>ks. load_keys (PDict d) = Inr ks \<and> path_key p \<in> set ks))
   \<and> load_keys (prune (PDict d)) = load_keys (PDict d)"
proof
  show "descend p (PDict d) = Some v \<and> \<not> is_dict v \<longrightarrow>
      (\<exists>ks. load_keys (PDict d) = Inr ks \<and> path_key p \<in> set ks)"
  proof
    assume a: "descend p (PDict d) = Some v \<and> \<not> is_dict v"
    then have "([] @ p, v) \<in> set (leaves_of [] (PDict d))" by (intro descend_leaf) simp_all
    then have "fst (p, v) \<in> fst ` set (leaves_of [] (PDict d))"
      by (intro imageI) simp
    then have mem: "path_key p \<in> path_key ` fst ` set (leaves_of [] (PDict d))"
      by (intro imageI) simp
    from load_keys_dict [of d] obtain ks where "load_keys (PDict d) = Inr ks"
      "set ks = path_key ` fst ` set (leaves_of [] (PDict d))" by blast
    with mem show "\<exists>ks. load_keys (PDict d) = Inr ks \<and> path_key p \<in> set ks"
      by (intro exI [of _ ks]) (simp del: leaves_of.simps)
  qed
next
  obtain d' where d': "prune (PDict d) = PDict d'" by simp
  from load_keys_dict [of d] obtain ks where ks: "load_keys (PDict d) = Inr ks" "sorted ks"
    "distinct ks" "set ks = path_key ` fst ` set (leaves_of [] (PDict d))" by blast
  from load_keys_dict [of d'] obtain ks' where ks': "load_keys (PDict d') = Inr ks'" "sorted ks'"
    "distinct ks'" "set ks' = path_key ` fst ` set (leaves_of [] (PDict d'))" by blast
  have "leaves_of [] (PDict d') = leaves_of [] (PDict d)"
    using leaves_of_prune [of "[]" "PDict d"] unfolding d' .
  then have "set ks' = set ks" using ks(4) ks'(4) by (simp only:)
  then have "ks' = ks" using ks(2,3) ks'(2,3) by (intro sorted_distinct_set_unique)
  then show "load_keys (prune (PDict d)) = load_keys (PDict d)"
    using ks(1) ks'(1) unfolding d' by (simp only:)
qed

theorem leafness_by_type_witness:
  "load_keys (PDict [(''s'', PStr []),
                     (''n'', PDict [(''z'', PInt 0), (''f'', PBool False), (''e'', PDict [])])])
     = Inr [''n.f'', ''n.z'', ''s'']
   \<and> (\<exists>ks. load_keys (PDict [(''s'', PStr []),
          (''n'', PDict [(''z'', PInt 0), (''f'', PBool False), (''e'', PDict [])])]) = Inr ks
        \<and> path_key [''s''] \<in> set ks)
   \<and> (\<exists>ks. load_keys (PDict [(''s'', PStr []),
          (''n'', PDict [(''z'', PInt 0), (''f'', PBool False), (''e'', PDict [])])]) = Inr ks
        \<and> path_key [''n'', ''z''] \<in> set ks)
   \<and> (\<exists>ks. load_keys (PDict [(''s'', PStr []),
          (''n'', PDict [(''z'', PInt 0), (''f'', PBool False), (''e'', PDict [])])]) = Inr ks
        \<and> path_key [''n'', ''f''] \<in> set ks)
   \<and> load_keys (prune (PDict [(''s'', PStr []),
          (''n'', PDict [(''z'', PInt 0), (''f'', PBool False), (''e'', PDict [])])]))
     = load_keys (PDict [(''s'', PStr []),
          (''n'', PDict [(''z'', PInt 0), (''f'', PBool False), (''e'', PDict [])])])"
proof -
  let ?d = "[(''s'', PStr []),
             (''n'', PDict [(''z'', PInt 0), (''f'', PBool False), (''e'', PDict [])])]"
  have run: "load_keys (PDict ?d) = Inr [''n.f'', ''n.z'', ''s'']"
    by (simp add: load_keys_def load_keys_while.simps eval_keys)
  have s: "descend [''s''] (PDict ?d) = Some (PStr []) \<and> \<not> is_dict (PStr [])" by simp
  have z: "descend [''n'', ''z''] (PDict ?d) = Some (PInt 0) \<and> \<not> is_dict (PInt 0)" by simp
  have f: "descend [''n'', ''f''] (PDict ?d) = Some (PBool False) \<and> \<not> is_dict (PBool False)"
    by simp
  from leafness_by_type [of "[''s'']" ?d "PStr []"] s
  have 1: "\<exists>ks. load_keys (PDict ?d) = Inr ks \<and> path_key [''s''] \<in> set ks" by blast
  from leafness_by_type [of "[''n'', ''z'']" ?d "PInt 0"] z
  have 2: "\<exists>ks. load_keys (PDict ?d) = Inr ks \<and> path_key [''n'', ''z''] \<in> set ks" by blast
  from leafness_by_type [of "[''n'', ''f'']" ?d "PBool False"] f
  have 3: "\<exists>ks. load_keys (PDict ?d) = Inr ks \<and> path_key [''n'', ''f''] \<in> set ks" by blast
  from leafness_by_type [of "[]" ?d PNone]
  have 4: "load_keys (prune (PDict ?d)) = load_keys (PDict ?d)" by blast
  from run 1 2 3 4 show ?thesis by (intro conjI)
qed

section \<open>Flattening, then resolving\<close>

lemma strip_where_id:
  assumes "s \<noteq> []" "\<not> P (hd s)" "\<not> P (last s)"
  shows "strip_where P s = s"
proof -
  from assms(1,2) have a: "dropWhile P s = s" by (cases s) simp_all
  from assms(1,3) have "dropWhile P (rev s) = rev s"
    by (cases "rev s") (simp_all add: hd_rev [symmetric])
  with a show ?thesis by (simp add: strip_where_def)
qed

lemma clean_key_strip: "clean_key k \<Longrightarrow> strip k = k"
  unfolding strip_def clean_key_def by (intro strip_where_id) simp_all

lemma clean_key_strip_dots: "clean_key k \<Longrightarrow> strip_dots k = k"
proof -
  assume c: "clean_key k"
  then have "k \<noteq> []" "CHR ''.'' \<notin> set k" by (simp_all add: clean_key_def)
  then have "hd k \<noteq> CHR ''.''" "last k \<noteq> CHR ''.''"
    by (metis hd_in_set, metis last_in_set)
  with \<open>k \<noteq> []\<close> show ?thesis unfolding strip_dots_def by (intro strip_where_id) simp_all
qed

lemma path_key_clean: "list_all clean_key q \<Longrightarrow> path_key q = join ''.'' q"
proof -
  assume a: "list_all clean_key q"
  then have m: "map (\<lambda>p. strip_dots (strip p)) q = q"
    by (intro map_idI) (simp add: list_all_iff clean_key_strip clean_key_strip_dots)
  from a have "filter (\<lambda>p. p \<noteq> []) q = q"
    by (simp add: list_all_iff clean_key_def)
  with m show ?thesis by (simp add: path_key_def)
qed

lemma split_on_no_sep: "c \<notin> set p \<Longrightarrow> split_on c p = [p]"
  by (induction p) auto

lemma split_on_append: "c \<notin> set p \<Longrightarrow> split_on c (p @ c # rest) = p # split_on c rest"
  by (induction p) auto

lemma split_on_join:
  "q \<noteq> [] \<Longrightarrow> list_all (\<lambda>p. c \<notin> set p) q \<Longrightarrow> split_on c (join [c] q) = q"
  by (induction "[c]" q rule: join.induct) (simp_all add: split_on_no_sep split_on_append)

lemma join_ends:
  "q \<noteq> [] \<Longrightarrow> list_all (\<lambda>p. p \<noteq> []) q \<Longrightarrow>
   join sep q \<noteq> [] \<and> hd (join sep q) = hd (hd q) \<and> last (join sep q) = last (last q)"
  by (induction sep q rule: join.induct) auto

lemma split_key_by_dot_join:
  assumes "q \<noteq> []" "list_all clean_key q"
  shows "split_key_by_dot (join ''.'' q) = q"
proof -
  from assms(2) have ne: "list_all (\<lambda>p. p \<noteq> []) q" and nd: "list_all (\<lambda>p. CHR ''.'' \<notin> set p) q"
    by (simp_all add: list_all_iff clean_key_def)
  from join_ends [OF assms(1) ne, of "''.''"]
  have j: "join ''.'' q \<noteq> []" "hd (join ''.'' q) = hd (hd q)" "last (join ''.'' q) = last (last q)"
    by simp_all
  from assms have "clean_key (hd q)" "clean_key (last q)"
    by (simp_all add: list_all_iff)
  then have "\<not> is_space (hd (join ''.'' q))" "\<not> is_space (last (join ''.'' q))"
    using j by (simp_all add: clean_key_def)
  with j(1) have s: "strip (join ''.'' q) = join ''.'' q"
    unfolding strip_def by (intro strip_where_id)
  have sp: "split_on CHR ''.'' (join ''.'' q) = q"
    using split_on_join [OF assms(1) nd] by simp
  from assms(2) have f: "filter (\<lambda>part. strip part \<noteq> []) q = q"
    by (simp add: list_all_iff clean_key_strip clean_key_def)
  from assms(2) have m: "map strip q = q"
    by (intro map_idI) (simp add: list_all_iff clean_key_strip)
  show ?thesis by (simp add: split_key_by_dot_def s j(1) sp f m)
qed

lemma leaf_descend:
  "(p, v) \<in> set (leaves_of pre data) \<Longrightarrow> wf_val data \<Longrightarrow> clean_keys data \<Longrightarrow>
   \<exists>q. p = pre @ q \<and> descend q data = Some v \<and> \<not> is_dict v \<and> list_all clean_key q
       \<and> (is_dict data \<longrightarrow> q \<noteq> [])"
proof (induction pre data arbitrary: p v rule: leaves_of.induct)
  case (1 path d)
  from "1.prems"(1) obtain kv where kv: "kv \<in> set d"
    "(p, v) \<in> set (leaves_of (path @ [fst kv]) (snd kv))" by auto
  from kv(1) "1.prems"(2,3) have sub: "wf_val (snd kv)" "clean_keys (snd kv)" "clean_key (fst kv)"
    by (auto simp: list_all_iff)
  from "1.IH" [OF kv(1) kv(2) sub(1,2)]
  obtain q where q: "p = (path @ [fst kv]) @ q" "descend q (snd kv) = Some v" "\<not> is_dict v"
    "list_all clean_key q" by blast
  from kv(1) "1.prems"(2) have "map_of d (fst kv) = Some (snd kv)" by simp
  then have "descend (fst kv # q) (PDict d) = Some v" using q(2) by simp
  with q sub(3) show ?case by (intro exI [of _ "fst kv # q"]) simp
qed simp_all

text \<open>
  Claim C1, as amended. Let the nested map hold every key once, and let every key of it,
  at every level, be non-empty, free of dots and free of whitespace at both ends. Then
  every dotted key that \<^verbatim>\<open>load_keys\<close> produces is the key of a path to a leaf of the
  map, and resolving it against the map with any fallback returns the textual form of
  that leaf, except that the fallback is returned for a leaf \<^verbatim>\<open>None\<close> and for a leaf of
  which \<^verbatim>\<open>str\<close> raises: one that is, or holds at any depth, an integer of more than 4300
  digits.
\<close>

theorem round_trip_clean_keys:
  assumes "wf_val (PDict d)" and "clean_keys (PDict d)"
      and "load_keys (PDict d) = Inr ks" and "key \<in> set ks"
  shows "\<exists>p v. descend p (PDict d) = Some v \<and> \<not> is_dict v \<and> key = path_key p
           \<and> get_actual_content key (PDict d) fallback =
               (if v = PNone then fallback
                else case py_str v of Inl e \<Rightarrow> fallback | Inr text \<Rightarrow> text)
           \<and> ((\<exists>e. py_str v = Inl e) = str_raises v)"
proof -
  from load_keys_dict [of d] assms(3)
  have "set ks = path_key ` fst ` set (leaves_of [] (PDict d))" by (simp del: leaves_of.simps)
  with assms(4) obtain p v where pv: "(p, v) \<in> set (leaves_of [] (PDict d))" "key = path_key p"
    by (auto simp del: leaves_of.simps)
  from leaf_descend [OF pv(1) assms(1,2)]
  have q: "descend p (PDict d) = Some v" "\<not> is_dict v" "list_all clean_key p" "p \<noteq> []"
    by simp_all
  have key: "key = join ''.'' p" using pv(2) q(3) by (simp add: path_key_clean)
  have "split_key_by_dot key = p" unfolding key using q(4,3) by (rule split_key_by_dot_join)
  then have "get_actual_content key (PDict d) fallback =
      (if v = PNone then fallback
       else case py_str v of Inl e \<Rightarrow> fallback | Inr text \<Rightarrow> text)"
    using q(1,2) by (cases v) (simp_all add: eval_resolve py_str_def)
  with q(1,2) pv(2) py_str_raises_iff [of v] show ?thesis by blast
qed

theorem round_trip_clean_keys_witness:
  "(\<exists>p v. descend p (PDict [(''a'', PDict [(''b'', PStr ''X'')]), (''n'', PInt 0)]) = Some v
      \<and> \<not> is_dict v \<and> ''a.b'' = path_key p
      \<and> get_actual_content ''a.b'' (PDict [(''a'', PDict [(''b'', PStr ''X'')]), (''n'', PInt 0)]) ''FB''
          = (if v = PNone then ''FB''
             else case py_str v of Inl e \<Rightarrow> ''FB'' | Inr text \<Rightarrow> text)
      \<and> ((\<exists>e. py_str v = Inl e) = str_raises v))
   \<and> get_actual_content ''a.b'' (PDict [(''a'', PDict [(''b'', PStr ''X'')]), (''n'', PInt 0)]) ''FB''
       = ''X''"
proof -
  have 1: "wf_val (PDict [(''a'', PDict [(''b'', PStr ''X'')]), (''n'', PInt 0)])" by simp
  have 2: "clean_keys (PDict [(''a'', PDict [(''b'', PStr ''X'')]), (''n'', PInt 0)])"
    by (simp add: clean_key_def is_space_def)
  have 3: "load_keys (PDict [(''a'', PDict [(''b'', PStr ''X'')]), (''n'', PInt 0)])
           = Inr [''a.b'', ''n'']"
    by (simp add: load_keys_def load_keys_while.simps eval_keys)
  have 4: "''a.b'' \<in> set [''a.b'', ''n'']" by simp
  have 5: "get_actual_content ''a.b''
             (PDict [(''a'', PDict [(''b'', PStr ''X'')]), (''n'', PInt 0)]) ''FB'' = ''X''"
    by (simp add: eval_resolve eval_keys)
  from round_trip_clean_keys [OF 1 2 3 4, of "''FB''"] 5 show ?thesis by (intro conjI)
qed

text \<open>
  The claim as the specification states it fails: the key \<^verbatim>\<open>a.b\<close> flattened from a map
  whose one key contains a dot resolves to the fallback, and so does the key of a leaf
  that is \<^verbatim>\<open>None\<close>.
\<close>

theorem round_trip_counterexample:
  "load_keys (PDict [(''a.b'', PStr ''X'')]) = Inr [''a.b'']
   \<and> get_actual_content ''a.b'' (PDict [(''a.b'', PStr ''X'')]) ''FB'' = ''FB''
   \<and> load_keys (PDict [(''a'', PNone)]) = Inr [''a'']
   \<and> get_actual_content ''a'' (PDict [(''a'', PNone)]) ''FB'' = ''FB''"
  by (simp add: load_keys_def load_keys_while.simps eval_resolve eval_keys)

section \<open>Naming the output file\<close>

lemma replace_from_numeral:
  "replace_from (numeral n) old new (c # cs) = replace_from (pred_numeral n) old new cs"
  by (simp add: numeral_eq_Suc)

lemma replace_template:
  "py_replace HTML_TEMPLATE_FILE_NAME ''template'' x = ''index.'' @ x @ ''.html''"
  by (simp add: py_replace_def HTML_TEMPLATE_FILE_NAME_def replace_from_numeral)

lemma removed_dot_and_after:
  "CHR ''.'' \<in> set s \<Longrightarrow>
   get_string_removed_dot_and_after s = takeWhile (\<lambda>c. c \<noteq> CHR ''.'') s"
proof -
  assume "CHR ''.'' \<in> set s"
  then have f: "find_char CHR ''.'' s = int (length (takeWhile (\<lambda>x. x \<noteq> CHR ''.'') s))"
    by (simp add: find_char_def)
  have t: "take (length (takeWhile (\<lambda>x. x \<noteq> CHR ''.'') s)) s = takeWhile (\<lambda>x. x \<noteq> CHR ''.'') s"
    by (rule takeWhile_eq_take [symmetric])
  show ?thesis
    unfolding get_string_removed_dot_and_after_def f Let_def
    by (cases "takeWhile (\<lambda>x. x \<noteq> CHR ''.'') s = []") (simp_all add: t)
qed

text \<open>
  Claim C8. For every selected language identifier (a member of \<^verbatim>\<open>LANG_LIST\<close>; it holds a
  dot, being a file name with the extension \<^verbatim>\<open>.yml\<close> or \<^verbatim>\<open>.yaml\<close>), the output file name
  that \<^verbatim>\<open>on_user_input\<close> sets is the template file name with \<^verbatim>\<open>template\<close> replaced by the
  part of the identifier before its first dot, which is what
  \<^verbatim>\<open>get_string_removed_dot_and_after\<close> computes.
\<close>

theorem output_file_name:
  assumes "user_input \<in> set (LANG_LIST g)" and "CHR ''.'' \<in> set user_input"
      and "on_user_input g w user_input = (out, g', w')"
  shows "get_string_removed_dot_and_after user_input = takeWhile (\<lambda>c. c \<noteq> CHR ''.'') user_input
       \<and> HTML_COPIED_FILE_NAME g' =
           py_replace HTML_TEMPLATE_FILE_NAME ''template''
             (takeWhile (\<lambda>c. c \<noteq> CHR ''.'') user_input)
       \<and> HTML_COPIED_FILE_NAME g' = ''index.'' @ takeWhile (\<lambda>c. c \<noteq> CHR ''.'') user_input @ ''.html''
       \<and> HTML_COPIED_FILE g' = HTML_COPIED_FILE_NAME g'"
proof -
  have r: "get_string_removed_dot_and_after user_input
           = takeWhile (\<lambda>c. c \<noteq> CHR ''.'') user_input"
    using assms(2) by (rule removed_dot_and_after)
  from assms(1,3) have "g' = g\<lparr>HTML_COPIED_FILE_NAME :=
        py_replace HTML_TEMPLATE_FILE_NAME ''template'' (get_string_removed_dot_and_after user_input),
      HTML_COPIED_FILE :=
        py_replace HTML_TEMPLATE_FILE_NAME ''template'' (get_string_removed_dot_and_after user_input)\<rparr>"
    by (auto simp: on_user_input_def Let_def split: prod.splits)
  then show ?thesis by (simp add: r replace_template)
qed

theorem output_file_name_witness:
  "HTML_COPIED_FILE_NAME (fst (snd (on_user_input
      \<lparr>LANG_LIST = [''en.yml'', ''zh_cn.yml''], HTML_COPIED_FILE_NAME = ''index.html'',
        HTML_COPIED_FILE = ''index.html''\<rparr>
      \<lparr>files = [''index.template.html'' \<mapsto> File ''<p>i18n:greeting</p>'' True True], ops = []\<rparr>
      ''zh_cn.yml''))) = ''index.zh_cn.html''"
proof -
  let ?g = "\<lparr>LANG_LIST = [''en.yml'', ''zh_cn.yml''], HTML_COPIED_FILE_NAME = ''index.html'',
        HTML_COPIED_FILE = ''index.html''\<rparr>"
  let ?w = "\<lparr>files = [''index.template.html'' \<mapsto> File ''<p>i18n:greeting</p>'' True True], ops = []\<rparr>"
  have 1: "''zh_cn.yml'' \<in> set (LANG_LIST ?g)" by simp
  have 2: "CHR ''.'' \<in> set ''zh_cn.yml''" by simp
  have 3: "on_user_input ?g ?w ''zh_cn.yml'' = (fst (on_user_input ?g ?w ''zh_cn.yml''),
      fst (snd (on_user_input ?g ?w ''zh_cn.yml'')), snd (snd (on_user_input ?g ?w ''zh_cn.yml'')))"
    by simp
  from output_file_name [OF 1 2 3]
  have "HTML_COPIED_FILE_NAME (fst (snd (on_user_input ?g ?w ''zh_cn.yml'')))
        = ''index.'' @ takeWhile (\<lambda>c. c \<noteq> CHR ''.'') ''zh_cn.yml'' @ ''.html''"
    by (elim conjE)
  then show ?thesis by simp
qed

section \<open>The guard of \<^verbatim>\<open>replace_text_in_file\<close>\<close>

text \<open>
  Claim C9, as amended. When the target exists, its suffix in lower case does not contain
  the text \<^verbatim>\<open>html\<close> and \<^verbatim>\<open>ignore_format_warning\<close> is not set, the call ends the process with
  status 255 and leaves the world as it was: no file was read or written. With the flag
  set the replacement goes on: a file that may be read and written is read, and rewritten
  with every occurrence replaced when the old text occurs in what was read.
\<close>

theorem non_html_guard:
  assumes "files w path = Some e" and "\<not> contains ''html'' (lower (suffix_of pf path))"
  shows "replace_text_in_file pf w path new_text old_text False = (Exited 255, w)
       \<and> (e = File stored True True \<longrightarrow>
            replace_text_in_file pf w path new_text old_text True =
              (Returned,
               if contains old_text (read_newlines stored)
               then w\<lparr>files := (files w)(path \<mapsto>
                        File (substituted pf stored old_text new_text) True True),
                      ops := ops w @ [Read path,
                                      Write path (substituted pf stored old_text new_text)]\<rparr>
               else w\<lparr>ops := ops w @ [Read path]\<rparr>))"
  using assms by (simp add: replace_text_in_file_def substituted_def Let_def)

theorem non_html_guard_witness:
  "replace_text_in_file \<lparr>suffix_of = (\<lambda>p. ''.txt''), linesep = [CHR 0x0A]\<rparr>
      \<lparr>files = [''notes.txt'' \<mapsto> File (''see env:title'' @ [CHR 0x0D, CHR 0x0A]) True True],
        ops = []\<rparr>
      ''notes.txt'' ''Site'' ''env:title'' False
    = (Exited 255,
       \<lparr>files = [''notes.txt'' \<mapsto> File (''see env:title'' @ [CHR 0x0D, CHR 0x0A]) True True],
         ops = []\<rparr>)
   \<and> replace_text_in_file \<lparr>suffix_of = (\<lambda>p. ''.txt''), linesep = [CHR 0x0A]\<rparr>
      \<lparr>files = [''notes.txt'' \<mapsto> File (''see env:title'' @ [CHR 0x0D, CHR 0x0A]) True True],
        ops = []\<rparr>
      ''notes.txt'' ''Site'' ''env:title'' True
    = (Returned,
       \<lparr>files = [''notes.txt'' \<mapsto> File (''see Site'' @ [CHR 0x0A]) True True],
         ops = [Read ''notes.txt'', Write ''notes.txt'' (''see Site'' @ [CHR 0x0A])]\<rparr>)"
proof -
  let ?pf = "\<lparr>suffix_of = (\<lambda>p. ''.txt''), linesep = [CHR 0x0A]\<rparr>"
  let ?stored = "''see env:title'' @ [CHR 0x0D, CHR 0x0A]"
  let ?w = "\<lparr>files = [''notes.txt'' \<mapsto> File ?stored True True], ops = []\<rparr>"
  have 1: "files ?w ''notes.txt'' = Some (File ?stored True True)" by simp
  have 2: "\<not> contains ''html'' (lower (suffix_of ?pf ''notes.txt''))"
    by (simp add: lower_def lower_char_def)
  have r: "read_newlines ?stored = ''see env:title'' @ [CHR 0x0A]" by simp
  have 3: "contains ''env:title'' (read_newlines ?stored)" unfolding r by simp
  have 4: "substituted ?pf ?stored ''env:title'' ''Site'' = ''see Site'' @ [CHR 0x0A]"
    unfolding substituted_def r
    by (simp add: py_replace_def replace_from_numeral write_newlines_def)
  from non_html_guard [OF 1 2, of "''Site''" "''env:title''" ?stored] 3 4
  show ?thesis by simp
qed

text \<open>
  The claim as the specification states it fails: \<^verbatim>\<open>.nothtml\<close> is not the suffix of an HTML
  file, yet a file of that suffix is rewritten with the flag not set, because the suffix
  contains \<^verbatim>\<open>html\<close>.
\<close>

theorem non_html_guard_counterexample:
  "\<not> html_suffix ''.nothtml''
   \<and> replace_text_in_file \<lparr>suffix_of = (\<lambda>p. ''.nothtml''), linesep = [CHR 0x0A]\<rparr>
      \<lparr>files = [''page.nothtml'' \<mapsto> File ''see env:title'' True True], ops = []\<rparr>
      ''page.nothtml'' ''Site'' ''env:title'' False
    = (Returned,
       \<lparr>files = [''page.nothtml'' \<mapsto> File ''see Site'' True True],
         ops = [Read ''page.nothtml'', Write ''page.nothtml'' ''see Site'']\<rparr>)"
  by (simp add: html_suffix_def replace_text_in_file_def lower_def lower_char_def
      py_replace_def replace_from_numeral write_newlines_def Let_def)

section \<open>An empty dictionary as custom data\<close>

text \<open>
  Claim C10. \<^verbatim>\<open>get_actual_env_content\<close> and \<^verbatim>\<open>get_actual_i18n_content\<close> test their
  \<^verbatim>\<open>data\<close> argument for truth, not for being \<^verbatim>\<open>None\<close>: called with an empty dictionary
  they do what they do without the argument, and resolve the key against the map of the
  registry, so a key of that map gives its value there.
\<close>

theorem empty_dict_uses_registry:
  "get_actual_env_content rt key (PDict []) = get_actual_env_content rt key PNone
   \<and> get_actual_i18n_content rt key lang_file (PDict [])
       = get_actual_i18n_content rt key lang_file PNone
   \<and> (DATA_ENV rt = PDict d \<longrightarrow>
        get_actual_env_content rt key (PDict [])
          = Inr (get_actual_content key (PDict d) (''env:'' @ key)))
   \<and> (DATA_I18N rt lang_file = Some (PDict d) \<longrightarrow>
        get_actual_i18n_content rt key lang_file (PDict [])
          = Inr (get_actual_content key (PDict d) (''i18n:'' @ key)))"
  by (simp add: get_actual_env_content_def get_actual_i18n_content_def get_template_text_def
      split: option.splits)

theorem empty_dict_uses_registry_witness:
  "get_actual_env_content
     \<lparr>DATA_ENV = PDict [(''title'', PStr ''Site'')], DATA_ENV_KEYS = [''title''],
       DATA_I18N = [''en.yml'' \<mapsto> PDict [(''greeting'', PStr ''Hello'')]],
       DATA_I18N_TRKEYS = [''en.yml'' \<mapsto> [''greeting'']]\<rparr> ''title'' (PDict []) = Inr ''Site''
   \<and> get_actual_i18n_content
     \<lparr>DATA_ENV = PDict [(''title'', PStr ''Site'')], DATA_ENV_KEYS = [''title''],
       DATA_I18N = [''en.yml'' \<mapsto> PDict [(''greeting'', PStr ''Hello'')]],
       DATA_I18N_TRKEYS = [''en.yml'' \<mapsto> [''greeting'']]\<rparr> ''greeting'' ''en.yml'' (PDict [])
     = Inr ''Hello''"
proof -
  let ?rt = "\<lparr>DATA_ENV = PDict [(''title'', PStr ''Site'')], DATA_ENV_KEYS = [''title''],
       DATA_I18N = [''en.yml'' \<mapsto> PDict [(''greeting'', PStr ''Hello'')]],
       DATA_I18N_TRKEYS = [''en.yml'' \<mapsto> [''greeting'']]\<rparr>"
  have e: "get_actual_content ''title'' (PDict [(''title'', PStr ''Site'')]) (''env:'' @ ''title'')
           = ''Site''"
    by (simp add: eval_resolve eval_keys)
  have i: "get_actual_content ''greeting'' (PDict [(''greeting'', PStr ''Hello'')])
             (''i18n:'' @ ''greeting'') = ''Hello''"
    by (simp add: eval_resolve eval_keys)
  from empty_dict_uses_registry [of ?rt "''title''" "''en.yml''" "[(''title'', PStr ''Site'')]"]
  have "DATA_ENV ?rt = PDict [(''title'', PStr ''Site'')] \<longrightarrow>
        get_actual_env_content ?rt ''title'' (PDict [])
          = Inr (get_actual_content ''title'' (PDict [(''title'', PStr ''Site'')])
                   (''env:'' @ ''title''))"
    by (elim conjE)
  then have a: "get_actual_env_content ?rt ''title'' (PDict []) = Inr ''Site''"
    unfolding e by simp
  from empty_dict_uses_registry [of ?rt "''greeting''" "''en.yml''" "[(''greeting'', PStr ''Hello'')]"]
  have "DATA_I18N ?rt ''en.yml'' = Some (PDict [(''greeting'', PStr ''Hello'')]) \<longrightarrow>
        get_actual_i18n_content ?rt ''greeting'' ''en.yml'' (PDict [])
          = Inr (get_actual_content ''greeting'' (PDict [(''greeting'', PStr ''Hello'')])
                   (''i18n:'' @ ''greeting''))"
    by (elim conjE)
  then have b: "get_actual_i18n_content ?rt ''greeting'' ''en.yml'' (PDict []) = Inr ''Hello''"
    unfolding i by simp
  from a b show ?thesis by (intro conjI)
qed


section \<open>The order of the two passes\<close>

lemma contains_Nil: "contains [] content"
  by (cases content) simp_all

lemma replace_text_in_file_html:
  assumes "files w path = Some (File stored True True)"
      and "contains ''html'' (lower (suffix_of pf path))"
  shows "\<exists>w'. replace_text_in_file pf w path new_text old_text False = (Returned, w')
            \<and> files w' = (files w)(path \<mapsto> File (substituted pf stored old_text new_text) True True)"
proof (cases "contains old_text (read_newlines stored)")
  case True
  with assms show ?thesis by (simp add: replace_text_in_file_def substituted_def Let_def)
next
  case False
  then have "substituted pf stored old_text new_text = stored" by (simp add: substituted_def)
  moreover have "(files w)(path \<mapsto> File stored True True) = files w"
    using assms(1) by (simp add: fun_upd_idem)
  ultimately show ?thesis using assms False by (simp add: replace_text_in_file_def Let_def)
qed

lemma main_env_loop_returns:
  assumes "DATA_ENV rt = PDict e"
      and "contains ''html'' (lower (suffix_of pf (HTML_COPIED_FILE g)))"
  shows "files w (HTML_COPIED_FILE g) = Some (File stored True True) \<Longrightarrow>
         \<exists>w' stored'. main_env_loop pf rt g keys w = (Returned, w')
            \<and> files w' (HTML_COPIED_FILE g) = Some (File stored' True True)"
proof (induction keys arbitrary: w stored)
  case Nil
  then show ?case by simp
next
  case (Cons i keys)
  have t: "get_template_text ''env'' i = Inr (''env:'' @ i)" by (simp add: get_template_text_def)
  have c: "get_actual_env_content rt i PNone = Inr (get_actual_content i (PDict e) (''env:'' @ i))"
    by (simp add: get_actual_env_content_def t assms(1))
  from replace_text_in_file_html [OF Cons.prems assms(2)]
  obtain w1 where w1: "replace_text_in_file pf w (HTML_COPIED_FILE g)
        (get_actual_content i (PDict e) (''env:'' @ i)) (''env:'' @ i) False = (Returned, w1)"
      "files w1 = (files w)(HTML_COPIED_FILE g \<mapsto> File (substituted pf stored (''env:'' @ i)
         (get_actual_content i (PDict e) (''env:'' @ i))) True True)" by blast
  from w1(2) have "files w1 (HTML_COPIED_FILE g) = Some (File (substituted pf stored (''env:'' @ i)
         (get_actual_content i (PDict e) (''env:'' @ i))) True True)" by simp
  from Cons.IH [OF this] obtain w' stored' where
    "main_env_loop pf rt g keys w1 = (Returned, w')"
    "files w' (HTML_COPIED_FILE g) = Some (File stored' True True)" by blast
  then show ?case using w1(1) by (simp add: t c)
qed

lemma main_i18n_step:
  assumes "DATA_I18N rt lang_file = Some (PDict l)"
      and "contains ''html'' (lower (suffix_of pf (HTML_COPIED_FILE g)))"
      and "files w (HTML_COPIED_FILE g) = Some (File stored True True)"
  shows "\<exists>w1. files w1 (HTML_COPIED_FILE g) =
              Some (File (substituted pf stored (''i18n:'' @ i)
                      (get_actual_content i (PDict l) (''i18n:'' @ i))) True True)
            \<and> (\<forall>keys. main_i18n_loop pf rt g lang_file (i # keys) w
                         = main_i18n_loop pf rt g lang_file keys w1)"
proof -
  have t: "get_template_text ''i18n'' i = Inr (''i18n:'' @ i)" by (simp add: get_template_text_def)
  have c: "get_actual_i18n_content rt i lang_file PNone
           = Inr (get_actual_content i (PDict l) (''i18n:'' @ i))"
    by (simp add: get_actual_i18n_content_def t assms(1))
  from replace_text_in_file_html [OF assms(3,2)]
  obtain w1 where w1: "replace_text_in_file pf w (HTML_COPIED_FILE g)
        (get_actual_content i (PDict l) (''i18n:'' @ i)) (''i18n:'' @ i) False = (Returned, w1)"
      "files w1 = (files w)(HTML_COPIED_FILE g \<mapsto> File (substituted pf stored (''i18n:'' @ i)
         (get_actual_content i (PDict l) (''i18n:'' @ i))) True True)" by blast
  from w1(2) have "files w1 (HTML_COPIED_FILE g) = Some (File (substituted pf stored (''i18n:'' @ i)
         (get_actual_content i (PDict l) (''i18n:'' @ i))) True True)" by simp
  moreover have "\<forall>keys. main_i18n_loop pf rt g lang_file (i # keys) w
                = main_i18n_loop pf rt g lang_file keys w1"
    using w1(1) by (simp add: t c)
  ultimately show ?thesis by blast
qed

lemma main_i18n_loop_last:
  assumes "DATA_I18N rt lang_file = Some (PDict l)"
      and "contains ''html'' (lower (suffix_of pf (HTML_COPIED_FILE g)))"
  shows "files w (HTML_COPIED_FILE g) = Some (File stored True True) \<Longrightarrow>
         \<exists>w2 before w'. main_i18n_loop pf rt g lang_file earlier w = (Returned, w2)
            \<and> files w2 (HTML_COPIED_FILE g) = Some (File before True True)
            \<and> main_i18n_loop pf rt g lang_file (earlier @ [k]) w = (Returned, w')
            \<and> files w' (HTML_COPIED_FILE g) =
                Some (File (substituted pf before (''i18n:'' @ k)
                        (get_actual_content k (PDict l) (''i18n:'' @ k))) True True)"
proof (induction earlier arbitrary: w stored)
  case Nil
  from main_i18n_step [OF assms Nil, of k]
  obtain w1 where w1: "files w1 (HTML_COPIED_FILE g) =
        Some (File (substituted pf stored (''i18n:'' @ k)
                (get_actual_content k (PDict l) (''i18n:'' @ k))) True True)"
      "main_i18n_loop pf rt g lang_file [k] w = main_i18n_loop pf rt g lang_file [] w1" by blast
  from w1(2) have "main_i18n_loop pf rt g lang_file ([] @ [k]) w = (Returned, w1)" by simp
  with w1(1) Nil show ?case by (intro exI [of _ w] exI [of _ stored] exI [of _ w1]) simp
next
  case (Cons i earlier)
  from main_i18n_step [OF assms Cons.prems, of i]
  obtain w1 where w1: "files w1 (HTML_COPIED_FILE g) =
        Some (File (substituted pf stored (''i18n:'' @ i)
                (get_actual_content i (PDict l) (''i18n:'' @ i))) True True)"
      "\<forall>keys. main_i18n_loop pf rt g lang_file (i # keys) w
         = main_i18n_loop pf rt g lang_file keys w1" by blast
  from Cons.IH [OF w1(1)]
  obtain w2 before w' where r: "main_i18n_loop pf rt g lang_file earlier w1 = (Returned, w2)"
      "files w2 (HTML_COPIED_FILE g) = Some (File before True True)"
      "main_i18n_loop pf rt g lang_file (earlier @ [k]) w1 = (Returned, w')"
      "files w' (HTML_COPIED_FILE g) =
         Some (File (substituted pf before (''i18n:'' @ k)
                 (get_actual_content k (PDict l) (''i18n:'' @ k))) True True)" by blast
  from w1(2) r(1) have a: "main_i18n_loop pf rt g lang_file (i # earlier) w = (Returned, w2)"
    by (simp only:)
  from w1(2) r(3) have b: "main_i18n_loop pf rt g lang_file ((i # earlier) @ [k]) w = (Returned, w')"
    by (simp only: append_Cons)
  from a r(2) b r(4) show ?case by blast
qed

lemma resolve_literal:
  "descend (split_key_by_dot k) data = Some (PStr s) \<Longrightarrow> get_actual_content k data fallback = s"
  by (simp add: eval_resolve)

text \<open>
  Claim C2, as amended. Let the environment map be any map, and let the selected
  language map hold the value \<^verbatim>\<open>env:foo\<close> at the key \<open>k\<close> that is the last of the language's
  flattened keys (the only one, for instance). On an HTML output file that may be read
  and written, \<^verbatim>\<open>main\<close> returns: the environment pass runs to its end, then the earlier
  language keys are substituted, and last every token \<^verbatim>\<open>i18n:k\<close> in the text of that moment
  is replaced by the literal text \<^verbatim>\<open>env:foo\<close>. What stands where the language token stood
  is \<^verbatim>\<open>env:foo\<close>, whatever the environment map holds for \<^verbatim>\<open>foo\<close>, because the environment
  pass is over by then. After a key that is not the last, a later substitution may still
  change the text put in.
\<close>

theorem env_pass_before_i18n_pass:
  assumes "DATA_ENV rt = PDict e"
      and "DATA_I18N rt lang_file = Some (PDict l)"
      and "DATA_I18N_TRKEYS rt lang_file = Some (earlier @ [k])"
      and "descend (split_key_by_dot k) (PDict l) = Some (PStr ''env:foo'')"
      and "files w (HTML_COPIED_FILE g) = Some (File stored True True)"
      and "contains ''html'' (lower (suffix_of pf (HTML_COPIED_FILE g)))"
  shows "\<exists>w1 w2 before w'.
           main_env_loop pf rt g (DATA_ENV_KEYS rt) w = (Returned, w1)
           \<and> main_i18n_loop pf rt g lang_file earlier w1 = (Returned, w2)
           \<and> files w2 (HTML_COPIED_FILE g) = Some (File before True True)
           \<and> main pf rt g lang_file w = (Returned, w')
           \<and> files w' (HTML_COPIED_FILE g) =
               Some (File (substituted pf before (''i18n:'' @ k) ''env:foo'') True True)"
proof -
  from main_env_loop_returns [OF assms(1,6,5), of "DATA_ENV_KEYS rt"]
  obtain w1 stored1 where w1: "main_env_loop pf rt g (DATA_ENV_KEYS rt) w = (Returned, w1)"
      "files w1 (HTML_COPIED_FILE g) = Some (File stored1 True True)" by blast
  from main_i18n_loop_last [OF assms(2,6) w1(2), of earlier k]
  obtain w2 before w' where r: "main_i18n_loop pf rt g lang_file earlier w1 = (Returned, w2)"
      "files w2 (HTML_COPIED_FILE g) = Some (File before True True)"
      "main_i18n_loop pf rt g lang_file (earlier @ [k]) w1 = (Returned, w')"
      "files w' (HTML_COPIED_FILE g) =
         Some (File (substituted pf before (''i18n:'' @ k)
                 (get_actual_content k (PDict l) (''i18n:'' @ k))) True True)" by blast
  have lit: "get_actual_content k (PDict l) (''i18n:'' @ k) = ''env:foo''"
    using assms(4) by (rule resolve_literal)
  have m: "main pf rt g lang_file w = (Returned, w')"
    by (simp add: main_def w1(1) assms(3) r(3))
  from w1(1) r(1,2) m r(4) show ?thesis unfolding lit by blast
qed

theorem env_pass_before_i18n_pass_witness:
  "\<exists>w'. main \<lparr>suffix_of = (\<lambda>p. ''.html''), linesep = [CHR 0x0A]\<rparr>
     \<lparr>DATA_ENV = PDict [(''foo'', PStr ''BAR'')], DATA_ENV_KEYS = [''foo''],
       DATA_I18N = [''en.yml'' \<mapsto> PDict [(''greeting'', PStr ''env:foo'')]],
       DATA_I18N_TRKEYS = [''en.yml'' \<mapsto> [''greeting'']]\<rparr>
     \<lparr>LANG_LIST = [''en.yml''], HTML_COPIED_FILE_NAME = ''index.en.html'',
       HTML_COPIED_FILE = ''index.en.html''\<rparr>
     ''en.yml''
     \<lparr>files = [''index.en.html'' \<mapsto> File ''<h1>env:foo</h1><p>i18n:greeting</p>'' True True],
       ops = []\<rparr> = (Returned, w')
   \<and> files w' ''index.en.html'' = Some (File ''<h1>BAR</h1><p>env:foo</p>'' True True)"
proof -
  let ?pf = "\<lparr>suffix_of = (\<lambda>p. ''.html''), linesep = [CHR 0x0A]\<rparr>"
  let ?rt = "\<lparr>DATA_ENV = PDict [(''foo'', PStr ''BAR'')], DATA_ENV_KEYS = [''foo''],
       DATA_I18N = [''en.yml'' \<mapsto> PDict [(''greeting'', PStr ''env:foo'')]],
       DATA_I18N_TRKEYS = [''en.yml'' \<mapsto> [''greeting'']]\<rparr>"
  let ?g = "\<lparr>LANG_LIST = [''en.yml''], HTML_COPIED_FILE_NAME = ''index.en.html'',
       HTML_COPIED_FILE = ''index.en.html''\<rparr>"
  let ?w = "\<lparr>files = [''index.en.html'' \<mapsto> File ''<h1>env:foo</h1><p>i18n:greeting</p>'' True True],
       ops = []\<rparr>"
  have 1: "DATA_ENV ?rt = PDict [(''foo'', PStr ''BAR'')]" by simp
  have 2: "DATA_I18N ?rt ''en.yml'' = Some (PDict [(''greeting'', PStr ''env:foo'')])" by simp
  have 3: "DATA_I18N_TRKEYS ?rt ''en.yml'' = Some ([] @ [''greeting''])" by simp
  have 4: "descend (split_key_by_dot ''greeting'') (PDict [(''greeting'', PStr ''env:foo'')])
           = Some (PStr ''env:foo'')" by (simp add: eval_keys)
  have 5: "files ?w (HTML_COPIED_FILE ?g)
           = Some (File ''<h1>env:foo</h1><p>i18n:greeting</p>'' True True)" by simp
  have 6: "contains ''html'' (lower (suffix_of ?pf (HTML_COPIED_FILE ?g)))"
    by (simp add: lower_def lower_char_def)
  have env: "main_env_loop ?pf ?rt ?g (DATA_ENV_KEYS ?rt) ?w =
      (Returned, \<lparr>files = [''index.en.html'' \<mapsto> File ''<h1>BAR</h1><p>i18n:greeting</p>'' True True],
         ops = [Read ''index.en.html'', Write ''index.en.html'' ''<h1>BAR</h1><p>i18n:greeting</p>'']\<rparr>)"
    by (simp add: get_template_text_def get_actual_env_content_def eval_resolve eval_keys
        replace_text_in_file_def lower_def lower_char_def py_replace_def replace_from_numeral
        write_newlines_def Let_def)
  have sub: "substituted ?pf ''<h1>BAR</h1><p>i18n:greeting</p>'' (''i18n:'' @ ''greeting'') ''env:foo''
             = ''<h1>BAR</h1><p>env:foo</p>''"
    by (simp add: substituted_def py_replace_def replace_from_numeral write_newlines_def)
  from env_pass_before_i18n_pass [OF 1 2 3 4 5 6]
  obtain w1 w2 before w' where r:
      "main_env_loop ?pf ?rt ?g (DATA_ENV_KEYS ?rt) ?w = (Returned, w1)"
      "main_i18n_loop ?pf ?rt ?g ''en.yml'' [] w1 = (Returned, w2)"
      "files w2 (HTML_COPIED_FILE ?g) = Some (File before True True)"
      "main ?pf ?rt ?g ''en.yml'' ?w = (Returned, w')"
      "files w' (HTML_COPIED_FILE ?g) =
         Some (File (substituted ?pf before (''i18n:'' @ ''greeting'') ''env:foo'') True True)"
    by blast
  from r(1) env have "w1 = \<lparr>files = [''index.en.html'' \<mapsto> File ''<h1>BAR</h1><p>i18n:greeting</p>'' True True],
         ops = [Read ''index.en.html'', Write ''index.en.html'' ''<h1>BAR</h1><p>i18n:greeting</p>'']\<rparr>"
    by simp
  with r(2,3) have "before = ''<h1>BAR</h1><p>i18n:greeting</p>''" by auto
  with r(5) sub have "files w' ''index.en.html'' = Some (File ''<h1>BAR</h1><p>env:foo</p>'' True True)"
    by simp
  with r(4) show ?thesis by blast
qed

text \<open>
  The claim as the specification states it fails: with the environment value \<^verbatim>\<open>BAR\<close> for
  \<^verbatim>\<open>foo\<close>, the rendered file holds \<^verbatim>\<open>env:foo\<close> where \<^verbatim>\<open>i18n:greeting\<close> stood, not \<^verbatim>\<open>BAR\<close>.
\<close>

theorem env_pass_before_i18n_pass_counterexample:
  "main \<lparr>suffix_of = (\<lambda>p. ''.html''), linesep = [CHR 0x0A]\<rparr>
     \<lparr>DATA_ENV = PDict [(''foo'', PStr ''BAR'')], DATA_ENV_KEYS = [''foo''],
       DATA_I18N = [''en.yml'' \<mapsto> PDict [(''greeting'', PStr ''env:foo'')]],
       DATA_I18N_TRKEYS = [''en.yml'' \<mapsto> [''greeting'']]\<rparr>
     \<lparr>LANG_LIST = [''en.yml''], HTML_COPIED_FILE_NAME = ''index.en.html'',
       HTML_COPIED_FILE = ''index.en.html''\<rparr>
     ''en.yml''
     \<lparr>files = [''index.en.html'' \<mapsto> File ''<p>i18n:greeting</p>'' True True], ops = []\<rparr>
   = (Returned,
      \<lparr>files = [''index.en.html'' \<mapsto> File ''<p>env:foo</p>'' True True],
        ops = [Read ''index.en.html'', Read ''index.en.html'',
               Write ''index.en.html'' ''<p>env:foo</p>'']\<rparr>)"
  by (simp add: main_def get_template_text_def get_actual_env_content_def
      get_actual_i18n_content_def eval_resolve eval_keys replace_text_in_file_def
      lower_def lower_char_def py_replace_def replace_from_numeral write_newlines_def Let_def)

end
